theory Spec2Isabelle
  imports Main "HOL-Library.Word"
begin

section \<open>Python values used by the S3 storage backend\<close>

text \<open>
  Python \<open>str\<close> is modelled as \<open>string\<close>, \<open>bytes\<close> as a list of 8-bit words,
  and an argument typed \<open>str | None\<close> as \<open>string option\<close>.
\<close>

type_synonym bytes = "8 word list"

text \<open>
  The botocore \<open>ClientError\<close>, reduced to the two fields the source reads:
  \<open>e.response['Error']['Code']\<close> and \<open>e.response['Error']['Message']\<close>.
\<close>

datatype client_error = ClientErr (err_code: string) (err_message: string)

text \<open>The exceptions that the modelled code raises or lets through.\<close>

datatype exn =
    ClientError client_error
  | KeyError string
  | TypeError
  | ValueError string
  | CodecError
  | AttributeError

text \<open>\<open>x or d\<close> for \<open>x : str | None\<close>: both \<open>None\<close> and the empty string are falsy.\<close>

definition str_or :: "string option \<Rightarrow> string \<Rightarrow> string" where
  "str_or x d = (case x of None \<Rightarrow> d | Some s \<Rightarrow> if s = [] then d else s)"

text \<open>\<open>s.startswith(p)\<close>.\<close>

fun startswith :: "string \<Rightarrow> string \<Rightarrow> bool" where
  "startswith s [] = True"
| "startswith [] (p # ps) = False"
| "startswith (c # cs) (p # ps) = (c = p \<and> startswith cs ps)"

text \<open>
  \<open>s.count(sub)\<close>: the number of non-overlapping occurrences of \<open>sub\<close> in \<open>s\<close>,
  scanning from the left; for the empty \<open>sub\<close> Python answers \<open>len(s) + 1\<close>.
  \<open>count_from sub skip s\<close> scans \<open>s\<close> with \<open>skip\<close> characters of the last
  occurrence still to be stepped over.
\<close>

fun count_from :: "string \<Rightarrow> nat \<Rightarrow> string \<Rightarrow> nat" where
  "count_from sub skip [] = 0"
| "count_from sub skip (c # cs) =
     (if 0 < skip then count_from sub (skip - 1) cs
      else if startswith (c # cs) sub then Suc (count_from sub (length sub - 1) cs)
      else count_from sub 0 cs)"

definition str_count :: "string \<Rightarrow> string \<Rightarrow> nat" where
  "str_count s sub = (if sub = [] then length s + 1 else count_from sub 0 s)"

text \<open>\<open>s.replace(old, new, 1)\<close>: only the leftmost occurrence of \<open>old\<close> is replaced.\<close>

fun replace_first :: "string \<Rightarrow> string \<Rightarrow> string \<Rightarrow> string" where
  "replace_first old new [] = (if old = [] then new else [])"
| "replace_first old new (c # cs) =
     (if startswith (c # cs) old then new @ drop (length old) (c # cs)
      else c # replace_first old new cs)"

text \<open>
  \<open>str.encode\<close> and \<open>bytes.decode\<close> are library code; they are parameters of the model.
  Either may raise (an unknown encoding name, an unencodable or undecodable input).
\<close>

record codec =
  encode :: "string \<Rightarrow> string \<Rightarrow> exn + bytes"
  decode :: "string \<Rightarrow> bytes \<Rightarrow> exn + string"

text \<open>
  A codec for evaluating examples: one byte for each character, whatever the encoding
  name (Latin-1 on the 8-bit characters of \<open>string\<close>); it never raises.
\<close>

definition byte_codec :: codec where
  "byte_codec =
     \<lparr> encode = (\<lambda>enc s. Inr (map of_char s)),
       decode = (\<lambda>enc b. Inr (map (\<lambda>w. char_of (unat w)) b)) \<rparr>"

text \<open>
  A codec that raises on the byte \<open>0xFF\<close>, as UTF-8 decoding does (no UTF-8 text
  contains that byte), and otherwise reads one character for each byte.
\<close>

definition strict_codec :: codec where
  "strict_codec =
     \<lparr> encode = (\<lambda>enc s. Inr (map of_char s)),
       decode = (\<lambda>enc b. if 255 \<in> set b then Inl CodecError
                          else Inr (map (\<lambda>w. char_of (unat w)) b)) \<rparr>"

section \<open>The S3 client\<close>

text \<open>
  The boto3 client is third-party code. It is a parameter of the model: a record of the
  four calls the storage class makes, over a backend state \<open>'s\<close>. Each call either
  raises a \<open>ClientError\<close> or succeeds; the mutating calls return the new backend state.
  The first argument after the state is \<open>Bucket\<close>, the second is \<open>Key\<close>.
\<close>

record 's s3_client =
  get_object :: "'s \<Rightarrow> string option \<Rightarrow> string \<Rightarrow> client_error + bytes"
  put_object :: "'s \<Rightarrow> string option \<Rightarrow> string \<Rightarrow> bytes \<Rightarrow> client_error + 's"
  head_object :: "'s \<Rightarrow> string option \<Rightarrow> string \<Rightarrow> client_error + unit"
  delete_object :: "'s \<Rightarrow> string option \<Rightarrow> string \<Rightarrow> client_error + 's"

text \<open>
  A bucket store that behaves as S3 does on the calls above: objects are a finite map from
  (bucket, key) to content, fetching or probing a missing object is a client error,
  deleting a missing object succeeds.
\<close>

type_synonym objects = "(string option \<times> string) \<rightharpoonup> bytes"

definition no_such_key :: client_error where
  "no_such_key = ClientErr ''NoSuchKey'' ''The specified key does not exist.''"

definition not_found :: client_error where
  "not_found = ClientErr ''404'' ''Not Found''"

definition object_store :: "objects s3_client" where
  "object_store =
     \<lparr> get_object = (\<lambda>s b k. case s (b, k) of None \<Rightarrow> Inl no_such_key | Some d \<Rightarrow> Inr d),
       put_object = (\<lambda>s b k d. Inr (s((b, k) \<mapsto> d))),
       head_object = (\<lambda>s b k. case s (b, k) of None \<Rightarrow> Inl not_found | Some d \<Rightarrow> Inr ()),
       delete_object = (\<lambda>s b k. Inr (s((b, k) := None))) \<rparr>"

section \<open>S3PipelineStorage\<close>

text \<open>
  The instance state set by \<open>__init__\<close>: \<open>bucket_name\<close> and \<open>base_prefix\<close>. The
  third attribute, \<open>self.s3 = boto3.client("s3")\<close>, is the client parameter above.
\<close>

record S3PipelineStorage =
  bucket_name :: "string option"
  base_prefix :: string

text \<open>
  \<open>__init__\<close> stores the bucket name and \<open>base_prefix or ""\<close>; the credentials and
  the region it receives are not stored.
\<close>

definition S3PipelineStorage_init ::
  "string option \<Rightarrow> string option \<Rightarrow> string option \<Rightarrow> string option \<Rightarrow> string option
     \<Rightarrow> S3PipelineStorage" where
  "S3PipelineStorage_init aws_access_key_id aws_secret_access_key bucket base region_name =
     \<lparr> bucket_name = bucket, base_prefix = str_or base [] \<rparr>"

text \<open>
  The first statement of \<open>get\<close>, \<open>set\<close>, \<open>has\<close> and \<open>delete\<close>:
  \<open>full_key = f"{self.base_prefix}/{key}" if self.base_prefix else key\<close>.
\<close>

definition full_key :: "S3PipelineStorage \<Rightarrow> string \<Rightarrow> string" where
  "full_key self key =
     (if base_prefix self \<noteq> [] then base_prefix self @ ''/'' @ key else key)"

text \<open>
  The second statement of \<open>get\<close> (no other method has it):
  \<open>if full_key.count(self.base_prefix) > 1:
      full_key = full_key.replace(f"{self.base_prefix}/", "", 1)\<close>.
\<close>

definition strip_duplicate_prefix :: "S3PipelineStorage \<Rightarrow> string \<Rightarrow> string" where
  "strip_duplicate_prefix self fk =
     (if 1 < str_count fk (base_prefix self)
      then replace_first (base_prefix self @ ''/'') [] fk
      else fk)"

text \<open>The key that \<open>get\<close> hands to \<open>get_object\<close>.\<close>

definition get_key :: "S3PipelineStorage \<Rightarrow> string \<Rightarrow> string" where
  "get_key self key = strip_duplicate_prefix self (full_key self key)"

text \<open>What \<open>get\<close> returns: bytes, text, or \<open>None\<close> (the outer \<open>option\<close>).\<close>

datatype content = Bytes bytes | Text string

text \<open>
  \<open>get\<close>. The result is paired with the lines written by \<open>log.error\<close>. A
  \<open>ClientError\<close> is logged first; then \<open>NoSuchKey\<close> returns \<open>None\<close> and any other
  code is re-raised. A failure of \<open>decode\<close> is not a \<open>ClientError\<close> and leaves
  the function unlogged.
\<close>

definition s3_get ::
  "codec \<Rightarrow> 's s3_client \<Rightarrow> S3PipelineStorage \<Rightarrow> string \<Rightarrow> bool option \<Rightarrow> string option
     \<Rightarrow> 's \<Rightarrow> (exn + content option) \<times> string list" where
  "s3_get cd cl self key as_bytes encoding s =
     (case get_object cl s (bucket_name self) (get_key self key) of
        Inr data \<Rightarrow>
          (if as_bytes = Some True then (Inr (Some (Bytes data)), [])
           else (case decode cd (str_or encoding ''utf-8'') data of
                   Inl e \<Rightarrow> (Inl e, [])
                 | Inr txt \<Rightarrow> (Inr (Some (Text txt)), [])))
      | Inl e \<Rightarrow>
          (let logged = [''Error fetching object from S3: '' @ err_message e]
           in if err_code e = ''NoSuchKey'' then (Inr None, logged)
              else (Inl (ClientError e), logged)))"

text \<open>
  \<open>set\<close>: bytes are uploaded as they are, text is encoded with
  \<open>encoding or 'utf-8'\<close> first. No exception is caught. The parameter is typed
  \<open>Any\<close>; a value that is neither bytes nor text goes to \<open>put_object\<close> untouched
  and is outside this model.
\<close>

definition s3_set ::
  "codec \<Rightarrow> 's s3_client \<Rightarrow> S3PipelineStorage \<Rightarrow> string \<Rightarrow> content \<Rightarrow> string option
     \<Rightarrow> 's \<Rightarrow> exn + 's" where
  "s3_set cd cl self key v encoding s =
     (case v of
        Bytes b \<Rightarrow>
          (case put_object cl s (bucket_name self) (full_key self key) b of
             Inl e \<Rightarrow> Inl (ClientError e) | Inr s' \<Rightarrow> Inr s')
      | Text t \<Rightarrow>
          (case encode cd (str_or encoding ''utf-8'') t of
             Inl e \<Rightarrow> Inl e
           | Inr encoded_value \<Rightarrow>
               (case put_object cl s (bucket_name self) (full_key self key) encoded_value of
                  Inl e \<Rightarrow> Inl (ClientError e) | Inr s' \<Rightarrow> Inr s')))"

text \<open>\<open>has\<close>: \<open>True\<close> when \<open>head_object\<close> succeeds, \<open>False\<close> on a \<open>ClientError\<close>.\<close>

definition s3_has :: "'s s3_client \<Rightarrow> S3PipelineStorage \<Rightarrow> string \<Rightarrow> 's \<Rightarrow> exn + bool" where
  "s3_has cl self key s =
     (case head_object cl s (bucket_name self) (full_key self key) of
        Inr u \<Rightarrow> Inr True
      | Inl e \<Rightarrow> Inr False)"

text \<open>\<open>delete\<close>: one \<open>delete_object\<close> call, nothing caught.\<close>

definition s3_delete :: "'s s3_client \<Rightarrow> S3PipelineStorage \<Rightarrow> string \<Rightarrow> 's \<Rightarrow> exn + 's" where
  "s3_delete cl self key s =
     (case delete_object cl s (bucket_name self) (full_key self key) of
        Inl e \<Rightarrow> Inl (ClientError e) | Inr s' \<Rightarrow> Inr s')"

text \<open>
  \<open>child\<close>. \<open>return self\<close> is the value \<open>Self\<close>; a constructed instance is \<open>New\<close>.
  The three constructor arguments read through \<open>self.s3.meta.client.meta\<close> are attribute
  lookups on the third-party client: they are the parameter \<open>attrs\<close>, which is either
  the exception such a lookup raises or the access key, secret key and region found.
\<close>

datatype child_result = Self | New S3PipelineStorage

record client_attrs =
  access_key :: "string option"
  secret_key :: "string option"
  region :: "string option"

definition child :: "exn + client_attrs \<Rightarrow> S3PipelineStorage \<Rightarrow> string option \<Rightarrow> exn + child_result" where
  "child attrs self name =
     (case name of
        None \<Rightarrow> Inr Self
      | Some n \<Rightarrow>
          (let new_prefix = (if base_prefix self \<noteq> [] then base_prefix self @ ''/'' @ n else n)
           in case attrs of
                Inl e \<Rightarrow> Inl e
              | Inr a \<Rightarrow>
                  Inr (New (S3PipelineStorage_init (access_key a) (secret_key a)
                              (bucket_name self) (Some new_prefix) (region a)))))"

text \<open>
  What the lookups give on the client the class really holds. \<open>self.s3\<close> is
  \<open>boto3.client("s3")\<close>, a botocore client. Its \<open>meta\<close> object has no attribute
  \<open>client\<close> (that attribute belongs to the \<open>meta\<close> of a boto3 resource), so the
  first lookup, \<open>self.s3.meta.client\<close>, raises \<open>AttributeError\<close>.
\<close>

definition botocore_client_attrs :: "exn + client_attrs" where
  "botocore_client_attrs = Inl AttributeError"

section \<open>find\<close>

text \<open>
  \<open>match.groupdict()\<close>: the named groups of a match in pattern order, each with the
  string it captured or \<open>None\<close> when the group took no part in the match.
  The compiled \<open>file_pattern\<close> is a parameter: \<open>file_pattern key\<close> is the group
  dictionary of \<open>file_pattern.match(key)\<close>, or \<open>None\<close> when there is no match.
\<close>

type_synonym groupdict = "(string \<times> string option) list"

text \<open>
  What the paginator does on each request for the next page: it raises a
  \<open>ClientError\<close> or delivers a page. A page is its \<open>Contents\<close> entry, reduced to the
  \<open>Key\<close> of every object, or \<open>None\<close> when the page has no \<open>Contents\<close> entry.
\<close>

type_synonym page = "string list option"

type_synonym listing = "(client_error + page) list"

text \<open>\<open>page.get('Contents', [])\<close>.\<close>

definition contents :: "page \<Rightarrow> string list" where
  "contents page = (case page of None \<Rightarrow> [] | Some objs \<Rightarrow> objs)"

text \<open>\<open>str(n)\<close> for a non-negative integer.\<close>

function str_nat :: "nat \<Rightarrow> string" where
  "str_nat n =
     (if n < 10 then [''0123456789'' ! n]
      else str_nat (n div 10) @ [''0123456789'' ! (n mod 10)])"
  by pat_completeness auto
termination
  by (relation "measure id") auto

declare str_nat.simps [simp del]

text \<open>The datashaper \<open>Progress\<close> value, with the three fields the source fills in.\<close>

record Progress =
  total_items :: nat
  completed_items :: nat
  description :: string

definition create_progress_status :: "nat \<Rightarrow> nat \<Rightarrow> nat \<Rightarrow> Progress" where
  "create_progress_status n_loaded n_filtered n_total =
     \<lparr> total_items = n_total,
       completed_items = n_loaded + n_filtered,
       description =
         str_nat n_loaded @ '' files loaded ('' @ str_nat n_filtered @ '' filtered)'' \<rparr>"

text \<open>The three local counters of \<open>find\<close>.\<close>

record counts =
  num_loaded :: nat
  num_filtered :: nat
  num_total :: nat

text \<open>
  \<open>find\<close> is a generator. Its run, when the consumer takes every entry, is the list of
  the things it does, in order: the paginator delivers a page (\<open>Fetched\<close>), the inner loop
  takes the next object (\<open>Object key\<close>), an entry is yielded, the progress callback is
  called. A consumer that stops early sees a prefix of this list.
\<close>

datatype event =
    Fetched
  | Object string
  | Yield string groupdict
  | Callback Progress

text \<open>
  How a piece of the loop nest ends: it falls through to the next iteration, it executes
  \<open>return\<close>, or an exception leaves it.
\<close>

datatype control = Continue | Return | Raise exn

text \<open>
  \<open>all(re.match(value, group[key]) for key, value in file_filter.items())\<close>.
  The filter is the list of its items in dictionary order; \<open>re_match value s\<close> says
  whether \<open>re.match(value, s)\<close> finds a match (the filter's values are taken to be valid
  patterns). \<open>group[key]\<close> raises \<open>KeyError\<close> for a name that is not in the group
  dictionary, and \<open>re.match\<close> raises \<open>TypeError\<close> when handed \<open>None\<close>. \<open>all\<close>
  stops at the first false element, so later items are not looked at.
\<close>

fun all_filter :: "('p \<Rightarrow> string \<Rightarrow> bool) \<Rightarrow> groupdict \<Rightarrow> (string \<times> 'p) list \<Rightarrow> exn + bool" where
  "all_filter re_match grp [] = Inr True"
| "all_filter re_match grp ((name, v) # items) =
     (case map_of grp name of
        None \<Rightarrow> Inl (KeyError name)
      | Some None \<Rightarrow> Inl TypeError
      | Some (Some s) \<Rightarrow>
          if re_match v s then all_filter re_match grp items else Inr False)"

text \<open>\<open>file_filter is None or all(...)\<close>.\<close>

definition filter_passes ::
  "('p \<Rightarrow> string \<Rightarrow> bool) \<Rightarrow> (string \<times> 'p) list option \<Rightarrow> groupdict \<Rightarrow> exn + bool" where
  "filter_passes re_match file_filter grp =
     (case file_filter of None \<Rightarrow> Inr True | Some items \<Rightarrow> all_filter re_match grp items)"

text \<open>
  The last statement of the inner loop body:
  \<open>if progress is not None: progress(_create_progress_status(...))\<close>.
  \<open>progress\<close> is \<open>True\<close> when a callback was given.
\<close>

definition report :: "bool \<Rightarrow> counts \<Rightarrow> event list" where
  "report progress c =
     (if progress
      then [Callback (create_progress_status (num_loaded c) (num_filtered c) (num_total c))]
      else [])"

text \<open>The body of the inner loop, for one object of a page.\<close>

definition find_object ::
  "(string \<Rightarrow> groupdict option) \<Rightarrow> ('p \<Rightarrow> string \<Rightarrow> bool) \<Rightarrow> bool \<Rightarrow> (string \<times> 'p) list option
     \<Rightarrow> int \<Rightarrow> string \<Rightarrow> counts \<Rightarrow> event list \<times> control \<times> counts" where
  "find_object file_pattern re_match progress file_filter max_count key c =
     (let c1 = c\<lparr>num_total := num_total c + 1\<rparr> in
      case file_pattern key of
        Some grp \<Rightarrow>
          (case filter_passes re_match file_filter grp of
             Inl e \<Rightarrow> ([Object key], Raise e, c1)
           | Inr True \<Rightarrow>
               (let c2 = c1\<lparr>num_loaded := num_loaded c1 + 1\<rparr> in
                if 0 < max_count \<and> max_count \<le> int (num_loaded c2)
                then ([Object key, Yield key grp], Return, c2)
                else ([Object key, Yield key grp] @ report progress c2, Continue, c2))
           | Inr False \<Rightarrow>
               (let c2 = c1\<lparr>num_filtered := num_filtered c1 + 1\<rparr> in
                ([Object key] @ report progress c2, Continue, c2)))
      | None \<Rightarrow>
          (let c2 = c1\<lparr>num_filtered := num_filtered c1 + 1\<rparr> in
           ([Object key] @ report progress c2, Continue, c2)))"

text \<open>The inner loop: \<open>for obj in page.get('Contents', [])\<close>.\<close>

fun find_contents ::
  "(string \<Rightarrow> groupdict option) \<Rightarrow> ('p \<Rightarrow> string \<Rightarrow> bool) \<Rightarrow> bool \<Rightarrow> (string \<times> 'p) list option
     \<Rightarrow> int \<Rightarrow> string list \<Rightarrow> counts \<Rightarrow> event list \<times> control \<times> counts" where
  "find_contents file_pattern re_match progress file_filter max_count [] c = ([], Continue, c)"
| "find_contents file_pattern re_match progress file_filter max_count (key # keys) c =
     (case find_object file_pattern re_match progress file_filter max_count key c of
        (evs, Continue, c') \<Rightarrow>
          (case find_contents file_pattern re_match progress file_filter max_count keys c' of
             (evs', r, c'') \<Rightarrow> (evs @ evs', r, c''))
      | (evs, r, c') \<Rightarrow> (evs, r, c'))"

text \<open>The outer loop: \<open>for page in paginator.paginate(...)\<close>.\<close>

fun find_pages ::
  "(string \<Rightarrow> groupdict option) \<Rightarrow> ('p \<Rightarrow> string \<Rightarrow> bool) \<Rightarrow> bool \<Rightarrow> (string \<times> 'p) list option
     \<Rightarrow> int \<Rightarrow> listing \<Rightarrow> counts \<Rightarrow> event list \<times> control \<times> counts" where
  "find_pages file_pattern re_match progress file_filter max_count [] c = ([], Continue, c)"
| "find_pages file_pattern re_match progress file_filter max_count (Inl e # rest) c =
     ([], Raise (ClientError e), c)"
| "find_pages file_pattern re_match progress file_filter max_count (Inr page # rest) c =
     (case find_contents file_pattern re_match progress file_filter max_count (contents page) c of
        (evs, Continue, c') \<Rightarrow>
          (case find_pages file_pattern re_match progress file_filter max_count rest c' of
             (evs', r, c'') \<Rightarrow> (Fetched # evs @ evs', r, c''))
      | (evs, r, c') \<Rightarrow> (Fetched # evs, r, c'))"

text \<open>
  \<open>search_prefix = f"{self.base_prefix}/{base_dir}" if base_dir else self.base_prefix\<close>.
\<close>

definition search_prefix :: "S3PipelineStorage \<Rightarrow> string option \<Rightarrow> string" where
  "search_prefix self base_dir =
     (case base_dir of
        None \<Rightarrow> base_prefix self
      | Some d \<Rightarrow> if d \<noteq> [] then base_prefix self @ ''/'' @ d else base_prefix self)"

text \<open>
  \<open>find\<close>. \<open>paginate bucket prefix\<close> is the listing that
  \<open>paginator.paginate(Bucket=bucket, Prefix=prefix)\<close> produces. The result is the run,
  how it ended (\<open>Continue\<close>: both loops ran to their end) and the final counters.
\<close>

definition s3_find ::
  "(string option \<Rightarrow> string \<Rightarrow> listing) \<Rightarrow> S3PipelineStorage \<Rightarrow> (string \<Rightarrow> groupdict option)
     \<Rightarrow> ('p \<Rightarrow> string \<Rightarrow> bool) \<Rightarrow> string option \<Rightarrow> bool \<Rightarrow> (string \<times> 'p) list option \<Rightarrow> int
     \<Rightarrow> event list \<times> control \<times> counts" where
  "s3_find paginate self file_pattern re_match base_dir progress file_filter max_count =
     find_pages file_pattern re_match progress file_filter max_count
       (paginate (bucket_name self) (search_prefix self base_dir))
       \<lparr> num_loaded = 0, num_filtered = 0, num_total = 0 \<rparr>"

text \<open>Readings of a run.\<close>

fun is_object :: "event \<Rightarrow> bool" where
  "is_object (Object k) = True"
| "is_object e = False"

fun is_yield :: "event \<Rightarrow> bool" where
  "is_yield (Yield k g) = True"
| "is_yield e = False"

fun is_callback :: "event \<Rightarrow> bool" where
  "is_callback (Callback p) = True"
| "is_callback e = False"

definition objects_seen :: "event list \<Rightarrow> nat" where
  "objects_seen evs = length (filter is_object evs)"

definition yielded :: "event list \<Rightarrow> nat" where
  "yielded evs = length (filter is_yield evs)"

definition callbacks :: "event list \<Rightarrow> nat" where
  "callbacks evs = length (filter is_callback evs)"

section \<open>The S3 text input\<close>

text \<open>
  The fields of \<open>PipelineInputConfig\<close> that \<open>load\<close> reads. The compiled
  \<open>config.file_pattern or DEFAULT_FILE_PATTERN\<close> is the parameter \<open>file_pattern\<close> of
  \<open>load\<close>, as it is for \<open>find\<close>.
\<close>

record PipelineInputConfig =
  cfg_bucket_name :: "string option"
  cfg_base_prefix :: "string option"

text \<open>\<open>s.endswith(suffix)\<close>.\<close>

definition endswith :: "string \<Rightarrow> string \<Rightarrow> bool" where
  "endswith s suffix = startswith (rev s) (rev suffix)"

text \<open>
  \<open>str(Path(key).name)\<close> for an object key that ends in \<open>.txt\<close>: what follows the
  last \<open>/\<close> (POSIX paths).
\<close>

definition path_name :: "string \<Rightarrow> string" where
  "path_name key = rev (takeWhile (\<lambda>c. c \<noteq> CHR ''/'') (rev key))"

text \<open>\<open>d[k] = v\<close> on a dictionary kept in insertion order.\<close>

fun dict_set :: "('k \<times> 'v) list \<Rightarrow> 'k \<Rightarrow> 'v \<Rightarrow> ('k \<times> 'v) list" where
  "dict_set [] k v = [(k, v)]"
| "dict_set ((k', v') # d) k v =
     (if k' = k then (k, v) # d else (k', v') # dict_set d k v)"

text \<open>
  What \<open>load\<close> writes to the log and to the progress reporter, one constructor for each
  statement, with the values the message interpolates.
\<close>

datatype notice =
    ReportProgress string
  | ErrorReading string client_error
  | WarningSkipping string
  | ErrorAccessing client_error
  | InfoFound nat "string option"
  | InfoLoading nat nat

text \<open>
  The row built by \<open>load_file\<close>: the groups, then \<open>text\<close>, \<open>id\<close> and \<open>title\<close>.
  \<open>gen_md5_hash\<close> lives outside the modelled files and is a parameter.
\<close>

definition new_item :: "(groupdict \<Rightarrow> string) \<Rightarrow> string \<Rightarrow> groupdict \<Rightarrow> string \<Rightarrow> groupdict" where
  "new_item gen_md5_hash key grp txt =
     (let item = dict_set grp ''text'' (Some txt);
          item = dict_set item ''id'' (Some (gen_md5_hash item))
      in dict_set item ''title'' (Some (path_name key)))"

text \<open>
  \<open>load_file\<close>. \<open>fetch bucket key\<close> is \<open>s3.get_object(Bucket=bucket, Key=key)\<close>
  followed by \<open>obj['Body'].read()\<close>. A \<open>ClientError\<close> is logged and re-raised; a
  decoding failure is raised as it is. \<open>load\<close> always passes the group dictionary,
  so the default \<open>group = None\<close> is not modelled.
\<close>

definition load_file ::
  "codec \<Rightarrow> (string option \<Rightarrow> string \<Rightarrow> client_error + bytes) \<Rightarrow> (groupdict \<Rightarrow> string)
     \<Rightarrow> PipelineInputConfig \<Rightarrow> string \<Rightarrow> groupdict \<Rightarrow> (exn + groupdict) \<times> notice list" where
  "load_file cd fetch gen_md5_hash config key grp =
     (case fetch (cfg_bucket_name config) key of
        Inl e \<Rightarrow> (Inl (ClientError e), [ErrorReading key e])
      | Inr data \<Rightarrow>
          (case decode cd ''utf-8'' data of
             Inl e \<Rightarrow> (Inl e, [])
           | Inr txt \<Rightarrow> (Inr (new_item gen_md5_hash key grp txt), [])))"

text \<open>The listing loops of \<open>load\<close>: the inner one over the objects of a page.\<close>

fun collect_contents :: "(string \<Rightarrow> groupdict option) \<Rightarrow> string list \<Rightarrow> (string \<times> groupdict) list" where
  "collect_contents file_pattern [] = []"
| "collect_contents file_pattern (key # keys) =
     (if endswith key ''.txt''
      then (case file_pattern key of
              Some grp \<Rightarrow> (key, grp) # collect_contents file_pattern keys
            | None \<Rightarrow> collect_contents file_pattern keys)
      else collect_contents file_pattern keys)"

text \<open>The outer one over the pages; a \<open>ClientError\<close> of the paginator leaves it.\<close>

fun collect_pages ::
  "(string \<Rightarrow> groupdict option) \<Rightarrow> listing \<Rightarrow> client_error + (string \<times> groupdict) list" where
  "collect_pages file_pattern [] = Inr []"
| "collect_pages file_pattern (Inl e # rest) = Inl e"
| "collect_pages file_pattern (Inr page # rest) =
     (case collect_pages file_pattern rest of
        Inl e \<Rightarrow> Inl e
      | Inr files \<Rightarrow> Inr (collect_contents file_pattern (contents page) @ files))"

text \<open>
  The loading loop: \<open>except Exception\<close> turns any failure of \<open>load_file\<close> into a warning
  and goes on with the next file.
\<close>

fun load_files ::
  "codec \<Rightarrow> (string option \<Rightarrow> string \<Rightarrow> client_error + bytes) \<Rightarrow> (groupdict \<Rightarrow> string)
     \<Rightarrow> PipelineInputConfig \<Rightarrow> bool \<Rightarrow> (string \<times> groupdict) list \<Rightarrow> groupdict list \<times> notice list" where
  "load_files cd fetch gen_md5_hash config progress [] = ([], [])"
| "load_files cd fetch gen_md5_hash config progress ((file, grp) # files) =
     (let announced = (if progress then [ReportProgress file] else []);
          (r, out1) = load_file cd fetch gen_md5_hash config file grp;
          (files_loaded, out2) = load_files cd fetch gen_md5_hash config progress files
      in case r of
           Inr item \<Rightarrow> (item # files_loaded, announced @ out1 @ out2)
         | Inl e \<Rightarrow> (files_loaded, announced @ out1 @ [WarningSkipping file] @ out2))"

text \<open>\<open>not x\<close> for \<open>x : str | None\<close>.\<close>

definition falsy :: "string option \<Rightarrow> bool" where
  "falsy x = (case x of None \<Rightarrow> True | Some s \<Rightarrow> s = [])"

text \<open>
  \<open>load\<close>. The result is the list of rows handed to \<open>pd.DataFrame\<close>, or the exception
  that leaves the function, paired with what was logged and reported.
\<close>

definition load ::
  "codec \<Rightarrow> (string option \<Rightarrow> string \<Rightarrow> client_error + bytes) \<Rightarrow> (groupdict \<Rightarrow> string)
     \<Rightarrow> (string option \<Rightarrow> string option \<Rightarrow> listing) \<Rightarrow> (string \<Rightarrow> groupdict option)
     \<Rightarrow> PipelineInputConfig \<Rightarrow> bool \<Rightarrow> (exn + groupdict list) \<times> notice list" where
  "load cd fetch gen_md5_hash paginate file_pattern config progress =
     (if falsy (cfg_bucket_name config) \<or> falsy (cfg_base_prefix config)
      then (Inl (ValueError ''S3 bucket name and base prefix are required for S3 input''), [])
      else
        (case collect_pages file_pattern
                (paginate (cfg_bucket_name config) (cfg_base_prefix config)) of
           Inl e \<Rightarrow> (Inl (ClientError e), [ErrorAccessing e])
         | Inr files \<Rightarrow>
             if length files = 0
             then (Inl (ValueError (''No text files found in S3 bucket ''
                          @ str_or (cfg_bucket_name config) [] @ '' with prefix ''
                          @ str_or (cfg_base_prefix config) [])), [])
             else
               (let (files_loaded, out1) =
                      load_files cd fetch gen_md5_hash config progress files
                in (Inr files_loaded,
                    [InfoFound (length files) (cfg_bucket_name config)] @ out1
                      @ [InfoLoading (length files) (length files_loaded)]))))"

section \<open>Properties of a run of find\<close>

text \<open>
  The early return. From counters \<open>c\<close> with fewer than \<open>max_count\<close> entries loaded, a
  piece of the run yields what \<open>num_loaded\<close> grows by; it executes \<open>return\<close> only
  with \<open>num_loaded\<close> equal to \<open>max_count\<close> and a yield as its last step, and it ends
  in any other way only below \<open>max_count\<close>.
\<close>

definition stops_at :: "int \<Rightarrow> counts \<Rightarrow> event list \<Rightarrow> control \<Rightarrow> counts \<Rightarrow> bool" where
  "stops_at mc c evs r c' \<longleftrightarrow>
     num_loaded c' = num_loaded c + yielded evs \<and>
     (r = Return \<longrightarrow> int (num_loaded c') = mc \<and> (\<exists>pre k g. evs = pre @ [Yield k g])) \<and>
     (r \<noteq> Return \<longrightarrow> int (num_loaded c') < mc)"




section \<open>Key resolution and the object operations\<close>

lemma startswith_append: "startswith (p @ s) p"
  by (induction p) auto

lemma replace_first_at_start: "old \<noteq> [] \<Longrightarrow> replace_first old new (old @ s) = new @ s"
  by (cases old) (simp_all add: startswith_append)

text \<open>
  With a non-empty prefix the full key begins with \<open>base_prefix + "/"\<close>, so the
  replacement in \<open>get\<close> removes exactly that leading segment.
\<close>

lemma get_key_nonempty_prefix:
  "base_prefix self \<noteq> [] \<Longrightarrow>
   get_key self key =
     (if 1 < str_count (base_prefix self @ ''/'' @ key) (base_prefix self) then key
      else base_prefix self @ ''/'' @ key)"
  using replace_first_at_start [of "base_prefix self @ ''/''" "[]" key]
  by (simp add: get_key_def full_key_def strip_duplicate_prefix_def)

lemma get_key_unchanged:
  "str_count (full_key self key) (base_prefix self) \<le> 1 \<Longrightarrow> get_key self key = full_key self key"
  by (simp add: get_key_def strip_duplicate_prefix_def)

text \<open>
  Where \<open>get\<close> and \<open>set\<close> resolve a key to the same object, what was stored is what is
  read back, for bytes and for text under a codec that decodes what it encoded.
\<close>

lemma set_get_bytes_roundtrip:
  assumes "get_key self key = full_key self key"
  shows "\<exists>s'. s3_set cd object_store self key (Bytes b) enc s = Inr s' \<and>
          s3_get cd object_store self key (Some True) enc' s' = (Inr (Some (Bytes b)), [])"
  using assms by (simp add: s3_set_def s3_get_def object_store_def)

lemma set_get_text_roundtrip:
  assumes "get_key self key = full_key self key"
    and "encode cd (str_or enc ''utf-8'') t = Inr b"
    and "decode cd (str_or enc ''utf-8'') b = Inr t"
  shows "\<exists>s'. s3_set cd object_store self key (Text t) enc s = Inr s' \<and>
          s3_get cd object_store self key None enc s' = (Inr (Some (Text t)), [])"
  using assms by (simp add: s3_set_def s3_get_def object_store_def)

text \<open>
  Claim C1: \<open>set(k, v)\<close> followed by \<open>get(k)\<close> on the same instance returns \<open>v\<close>.
  The code does not do this for every key. On an instance at the bucket root
  (\<open>base_prefix = ""\<close>) the test \<open>full_key.count("") > 1\<close> in \<open>get\<close> holds for every
  key of at least one character, and the replacement then deletes the first \<open>/\<close> of the
  key: \<open>set("a/b", v)\<close> writes the object \<open>a/b\<close>, \<open>get("a/b")\<close> asks for \<open>ab\<close> and
  returns \<open>None\<close>.
\<close>

theorem set_then_get_loses_object:
  "s3_set byte_codec object_store \<lparr>bucket_name = Some ''bucket'', base_prefix = []\<rparr> ''a/b''
      (Bytes [1]) None Map.empty
     = Inr [(Some ''bucket'', ''a/b'') \<mapsto> [1]] \<and>
   s3_get byte_codec object_store \<lparr>bucket_name = Some ''bucket'', base_prefix = []\<rparr> ''a/b''
      (Some True) None [(Some ''bucket'', ''a/b'') \<mapsto> [1]]
     = (Inr None, [''Error fetching object from S3: The specified key does not exist.''])"
  by (simp add: s3_set_def s3_get_def object_store_def full_key_def get_key_def
      strip_duplicate_prefix_def str_count_def no_such_key_def)

text \<open>
  Claim C2, as stated: every operation strips a duplicated base prefix from the full key.
  \<open>set\<close> does not: under the prefix \<open>docs\<close> the key \<open>docs/x\<close> resolves to
  \<open>docs/docs/x\<close>, which holds the prefix twice, and that is the object written.
\<close>

theorem set_keeps_duplicate_prefix:
  "str_count (full_key \<lparr>bucket_name = Some ''bucket'', base_prefix = ''docs''\<rparr> ''docs/x'')
      ''docs'' = 2 \<and>
   s3_set byte_codec object_store \<lparr>bucket_name = Some ''bucket'', base_prefix = ''docs''\<rparr> ''docs/x''
      (Bytes [1]) None Map.empty
     = Inr [(Some ''bucket'', ''docs/docs/x'') \<mapsto> [1]]"
  by (simp add: s3_set_def object_store_def full_key_def str_count_def)

text \<open>
  Claim C2, amended: \<open>set\<close>, \<open>has\<close> and \<open>delete\<close> act on the object at
  \<open>base_prefix + "/" + key\<close> (at \<open>key\<close> when the prefix is empty) and strip nothing.
  Only \<open>get\<close> strips. Under a non-empty prefix it fetches the object at \<open>key\<close> itself
  when the full key holds the prefix more than once, and the object at the full key
  otherwise, whether bytes or text are asked for. Nothing is said here about the key
  that \<open>get\<close> fetches under the empty prefix.
\<close>

theorem key_resolution:
  "s3_set cd object_store self key (Bytes b) enc s =
     Inr (s((bucket_name self,
             if base_prefix self = [] then key else base_prefix self @ ''/'' @ key) \<mapsto> b)) \<and>
   s3_set cd object_store self key (Text t) enc s =
     (case encode cd (str_or enc ''utf-8'') t of
        Inl e \<Rightarrow> Inl e
      | Inr b' \<Rightarrow>
          Inr (s((bucket_name self,
                  if base_prefix self = [] then key else base_prefix self @ ''/'' @ key)
                 \<mapsto> b'))) \<and>
   s3_has object_store self key s =
     Inr (s (bucket_name self,
             if base_prefix self = [] then key else base_prefix self @ ''/'' @ key) \<noteq> None) \<and>
   s3_delete object_store self key s =
     Inr (s((bucket_name self,
             if base_prefix self = [] then key else base_prefix self @ ''/'' @ key) := None)) \<and>
   (base_prefix self \<noteq> [] \<longrightarrow>
      fst (s3_get cd object_store self key as_bytes enc s) =
        (case s (bucket_name self,
                 if 1 < str_count (base_prefix self @ ''/'' @ key) (base_prefix self)
                 then key else base_prefix self @ ''/'' @ key) of
           None \<Rightarrow> Inr None
         | Some data \<Rightarrow>
             if as_bytes = Some True then Inr (Some (Bytes data))
             else (case decode cd (str_or enc ''utf-8'') data of
                     Inl e \<Rightarrow> Inl e
                   | Inr txt \<Rightarrow> Inr (Some (Text txt)))))"
proof -
  have set_part: "s3_set cd object_store self key (Bytes b) enc s =
     Inr (s((bucket_name self,
             if base_prefix self = [] then key else base_prefix self @ ''/'' @ key) \<mapsto> b))"
    by (simp add: s3_set_def object_store_def full_key_def)
  have text_part: "s3_set cd object_store self key (Text t) enc s =
     (case encode cd (str_or enc ''utf-8'') t of
        Inl e \<Rightarrow> Inl e
      | Inr b' \<Rightarrow>
          Inr (s((bucket_name self,
                  if base_prefix self = [] then key else base_prefix self @ ''/'' @ key)
                 \<mapsto> b')))"
    by (simp add: s3_set_def object_store_def full_key_def split: sum.splits)
  have has_part: "s3_has object_store self key s =
     Inr (s (bucket_name self,
             if base_prefix self = [] then key else base_prefix self @ ''/'' @ key) \<noteq> None)"
    by (simp add: s3_has_def object_store_def full_key_def split: option.splits)
  have delete_part: "s3_delete object_store self key s =
     Inr (s((bucket_name self,
             if base_prefix self = [] then key else base_prefix self @ ''/'' @ key) := None))"
    by (simp add: s3_delete_def object_store_def full_key_def)
  have get_part: "fst (s3_get cd object_store self key as_bytes enc s) =
        (case s (bucket_name self,
                 if 1 < str_count (base_prefix self @ ''/'' @ key) (base_prefix self)
                 then key else base_prefix self @ ''/'' @ key) of
           None \<Rightarrow> Inr None
         | Some data \<Rightarrow>
             if as_bytes = Some True then Inr (Some (Bytes data))
             else (case decode cd (str_or enc ''utf-8'') data of
                     Inl e \<Rightarrow> Inl e
                   | Inr txt \<Rightarrow> Inr (Some (Text txt))))"
    if "base_prefix self \<noteq> []"
    by (simp add: s3_get_def object_store_def no_such_key_def
        get_key_nonempty_prefix [OF that] split: option.splits sum.splits)
  from set_part text_part has_part delete_part get_part show ?thesis by blast
qed

theorem key_resolution_witness:
  "base_prefix \<lparr>bucket_name = Some ''bucket'', base_prefix = ''docs''\<rparr> \<noteq> [] \<and>
   fst (s3_get byte_codec object_store \<lparr>bucket_name = Some ''bucket'', base_prefix = ''docs''\<rparr>
          ''docs/x'' (Some True) None [(Some ''bucket'', ''docs/x'') \<mapsto> [7]])
     = Inr (Some (Bytes [7])) \<and>
   fst (s3_get byte_codec object_store \<lparr>bucket_name = Some ''bucket'', base_prefix = ''docs''\<rparr>
          ''x'' None None [(Some ''bucket'', ''docs/x'') \<mapsto> []])
     = Inr (Some (Text []))"
  using key_resolution [where cd = byte_codec and key = "''docs/x''" and enc = None
      and as_bytes = "Some True"
      and self = "\<lparr>bucket_name = Some ''bucket'', base_prefix = ''docs''\<rparr>"
      and s = "[(Some ''bucket'', ''docs/x'') \<mapsto> [7]]"]
    key_resolution [where cd = byte_codec and key = "''x''" and enc = None
      and as_bytes = None
      and self = "\<lparr>bucket_name = Some ''bucket'', base_prefix = ''docs''\<rparr>"
      and s = "[(Some ''bucket'', ''docs/x'') \<mapsto> []]"]
  by (simp add: str_count_def byte_codec_def)

text \<open>
  Claim C6, as stated: every retrieval failure other than \<open>NoSuchKey\<close> reaches the
  caller after being logged. The handler names \<open>ClientError\<close> only. An object whose
  body does not decode makes \<open>get\<close> raise with nothing logged.
\<close>

theorem get_decode_failure_unlogged:
  "s3_get strict_codec object_store \<lparr>bucket_name = Some ''bucket'', base_prefix = ''docs''\<rparr>
      ''x.txt'' None None [(Some ''bucket'', ''docs/x.txt'') \<mapsto> [255]]
     = (Inl CodecError, [])"
  by (simp add: s3_get_def object_store_def get_key_def full_key_def strip_duplicate_prefix_def
      str_count_def strict_codec_def str_or_def)

text \<open>
  Claim C6, amended: when the backend answers \<open>get_object\<close> with the client error
  \<open>NoSuchKey\<close>, \<open>get\<close> logs the message and returns \<open>None\<close>, raising nothing; a
  client error with any other code is logged and then raised to the caller. A failure
  that is not a client error is not caught: when the object is retrieved, text is asked
  for and the body does not decode, the decoding error is raised with nothing logged.
\<close>

theorem get_failures:
  "(get_object cl s (bucket_name self) (get_key self key) = Inl e \<longrightarrow>
      s3_get cd cl self key as_bytes encoding s =
        (if err_code e = ''NoSuchKey'' then Inr None else Inl (ClientError e),
         [''Error fetching object from S3: '' @ err_message e])) \<and>
   (get_object cl s (bucket_name self) (get_key self key) = Inr data \<and>
    as_bytes \<noteq> Some True \<and> decode cd (str_or encoding ''utf-8'') data = Inl x \<longrightarrow>
      s3_get cd cl self key as_bytes encoding s = (Inl x, []))"
  by (simp add: s3_get_def Let_def)

theorem get_failures_witness:
  "s3_get strict_codec object_store \<lparr>bucket_name = Some ''bucket'', base_prefix = ''docs''\<rparr>
      ''x.txt'' None None Map.empty
     = (Inr None, [''Error fetching object from S3: The specified key does not exist.''])
   \<and> s3_get strict_codec
       (object_store\<lparr>get_object := \<lambda>s b k. Inl (ClientErr ''AccessDenied'' ''Access Denied'')\<rparr>)
       \<lparr>bucket_name = Some ''bucket'', base_prefix = ''docs''\<rparr> ''x.txt'' None None Map.empty
     = (Inl (ClientError (ClientErr ''AccessDenied'' ''Access Denied'')),
        [''Error fetching object from S3: Access Denied''])
   \<and> s3_get strict_codec object_store \<lparr>bucket_name = Some ''bucket'', base_prefix = ''docs''\<rparr>
      ''x.txt'' (Some False) None [(Some ''bucket'', ''docs/x.txt'') \<mapsto> [255]]
     = (Inl CodecError, [])"
proof -
  let ?st = "\<lparr>bucket_name = Some ''bucket'', base_prefix = ''docs''\<rparr>"
  let ?deny =
    "object_store\<lparr>get_object := \<lambda>s b k. Inl (ClientErr ''AccessDenied'' ''Access Denied'')\<rparr>"
  let ?bad = "[(Some ''bucket'', ''docs/x.txt'') \<mapsto> [255::8 word]]"
  have k: "get_key ?st ''x.txt'' = ''docs/x.txt''"
    by (simp add: get_key_def full_key_def strip_duplicate_prefix_def str_count_def)
  have a: "get_object object_store Map.empty (bucket_name ?st) (get_key ?st ''x.txt'')
             = Inl no_such_key"
    by (simp add: object_store_def)
  have b: "get_object ?deny Map.empty (bucket_name ?st) (get_key ?st ''x.txt'')
             = Inl (ClientErr ''AccessDenied'' ''Access Denied'')"
    by simp
  have c: "get_object object_store ?bad (bucket_name ?st) (get_key ?st ''x.txt'') = Inr [255]
           \<and> Some False \<noteq> Some True
           \<and> decode strict_codec (str_or None ''utf-8'') [255] = Inl CodecError"
    by (simp add: object_store_def k strict_codec_def)
  show ?thesis
    using get_failures [THEN conjunct1, rule_format, OF a, of strict_codec None None]
      get_failures [THEN conjunct1, rule_format, OF b, of strict_codec None None]
      get_failures [THEN conjunct2, rule_format, OF c]
    by (simp add: no_such_key_def)
qed

text \<open>For \<open>None\<close> the method returns before it touches the client.\<close>

lemma child_None: "child attrs self None = Inr Self"
  by (simp add: child_def)

text \<open>
  Claim C7: for every non-empty name \<open>child\<close> returns a new instance whose prefix is
  \<open>base_prefix + "/" + name\<close>. The code computes that prefix and then reads the
  constructor arguments through \<open>self.s3.meta.client\<close>; on the client the instance
  holds this lookup raises, so \<open>child("reports")\<close> under the prefix \<open>docs\<close> ends with
  \<open>AttributeError\<close> and no instance is returned.
\<close>

theorem child_raises_attribute_error:
  "child botocore_client_attrs \<lparr>bucket_name = Some ''bucket'', base_prefix = ''docs''\<rparr>
      (Some ''reports'')
     = Inl AttributeError"
  by (simp add: child_def botocore_client_attrs_def)

text \<open>
  Claim C8, as stated: \<open>has\<close> raises for access failures. It does not: the object is
  there, the backend refuses the probe with a 403 client error, and \<open>has\<close> returns
  \<open>False\<close>.
\<close>

theorem has_access_denied:
  "s3_has (object_store\<lparr>head_object := \<lambda>s b k. Inl (ClientErr ''403'' ''Forbidden'')\<rparr>)
      \<lparr>bucket_name = Some ''bucket'', base_prefix = ''docs''\<rparr> ''x.txt''
      [(Some ''bucket'', ''docs/x.txt'') \<mapsto> [1]]
     = Inr False"
  by (simp add: s3_has_def)

text \<open>
  Claim C8, amended: \<open>has\<close> probes the full key \<open>base_prefix + "/" + key\<close> (\<open>key\<close> when
  the prefix is empty); it returns \<open>True\<close> when the probe succeeds and \<open>False\<close> for
  every client error, whatever its code, and raises for none of them.
\<close>

theorem has_never_raises:
  "s3_has cl self key s =
     Inr (\<not> isl (head_object cl s (bucket_name self)
                  (if base_prefix self = [] then key else base_prefix self @ ''/'' @ key)))"
  by (simp add: s3_has_def full_key_def split: sum.splits)

section \<open>The scan of find\<close>

text \<open>The five ways through the body of the inner loop.\<close>

lemma find_object_None:
  "fp key = None \<Longrightarrow>
   find_object fp rm pr ff mc key c =
     (Object key # report pr (c\<lparr>num_total := num_total c + 1, num_filtered := num_filtered c + 1\<rparr>),
      Continue, c\<lparr>num_total := num_total c + 1, num_filtered := num_filtered c + 1\<rparr>)"
  by (simp add: find_object_def Let_def)

lemma find_object_False:
  "fp key = Some g \<Longrightarrow> filter_passes rm ff g = Inr False \<Longrightarrow>
   find_object fp rm pr ff mc key c =
     (Object key # report pr (c\<lparr>num_total := num_total c + 1, num_filtered := num_filtered c + 1\<rparr>),
      Continue, c\<lparr>num_total := num_total c + 1, num_filtered := num_filtered c + 1\<rparr>)"
  by (simp add: find_object_def Let_def)

lemma find_object_Raise:
  "fp key = Some g \<Longrightarrow> filter_passes rm ff g = Inl e \<Longrightarrow>
   find_object fp rm pr ff mc key c =
     ([Object key], Raise e, c\<lparr>num_total := num_total c + 1\<rparr>)"
  by (simp add: find_object_def Let_def)

lemma find_object_Return:
  "fp key = Some g \<Longrightarrow> filter_passes rm ff g = Inr True \<Longrightarrow>
   0 < mc \<Longrightarrow> mc \<le> int (num_loaded c) + 1 \<Longrightarrow>
   find_object fp rm pr ff mc key c =
     ([Object key, Yield key g], Return,
      c\<lparr>num_total := num_total c + 1, num_loaded := num_loaded c + 1\<rparr>)"
  by (simp add: find_object_def Let_def)

lemma find_object_Yield:
  "fp key = Some g \<Longrightarrow> filter_passes rm ff g = Inr True \<Longrightarrow>
   \<not> (0 < mc \<and> mc \<le> int (num_loaded c) + 1) \<Longrightarrow>
   find_object fp rm pr ff mc key c =
     ([Object key, Yield key g]
        @ report pr (c\<lparr>num_total := num_total c + 1, num_loaded := num_loaded c + 1\<rparr>),
      Continue, c\<lparr>num_total := num_total c + 1, num_loaded := num_loaded c + 1\<rparr>)"
  by (auto simp: find_object_def Let_def)

lemma find_object_cases:
  assumes "find_object fp rm pr ff mc key c = (evs, r, c')"
  obtains
    (filtered) "r = Continue" "evs = Object key # report pr c'"
      "c' = c\<lparr>num_total := num_total c + 1, num_filtered := num_filtered c + 1\<rparr>"
      "fp key = None \<or> (\<exists>g. fp key = Some g \<and> filter_passes rm ff g = Inr False)"
  | (loaded) g where "r = Continue" "evs = [Object key, Yield key g] @ report pr c'"
      "c' = c\<lparr>num_total := num_total c + 1, num_loaded := num_loaded c + 1\<rparr>"
      "fp key = Some g" "filter_passes rm ff g = Inr True"
      "\<not> (0 < mc \<and> mc \<le> int (num_loaded c) + 1)"
  | (final) g where "r = Return" "evs = [Object key, Yield key g]"
      "c' = c\<lparr>num_total := num_total c + 1, num_loaded := num_loaded c + 1\<rparr>"
      "fp key = Some g" "filter_passes rm ff g = Inr True"
      "0 < mc" "mc \<le> int (num_loaded c) + 1"
  | (raised) g e where "r = Raise e" "evs = [Object key]"
      "c' = c\<lparr>num_total := num_total c + 1\<rparr>"
      "fp key = Some g" "filter_passes rm ff g = Inl e"
proof (cases "fp key")
  case None
  from assms None
  have "r = Continue" "evs = Object key # report pr c'"
    "c' = c\<lparr>num_total := num_total c + 1, num_filtered := num_filtered c + 1\<rparr>"
    by (auto simp: find_object_None)
  then show ?thesis using None by (intro filtered) auto
next
  case (Some g)
  show ?thesis
  proof (cases "filter_passes rm ff g")
    case (Inl e)
    from assms Some Inl
    have "r = Raise e" "evs = [Object key]" "c' = c\<lparr>num_total := num_total c + 1\<rparr>"
      by (auto simp: find_object_Raise)
    then show ?thesis using Some Inl by (intro raised)
  next
    case (Inr b)
    show ?thesis
    proof (cases b)
      case False
      with Inr have fp: "filter_passes rm ff g = Inr False" by simp
      from assms Some fp
      have "r = Continue" "evs = Object key # report pr c'"
        "c' = c\<lparr>num_total := num_total c + 1, num_filtered := num_filtered c + 1\<rparr>"
        by (auto simp: find_object_False)
      then show ?thesis using Some fp by (intro filtered) auto
    next
      case True
      with Inr have fp: "filter_passes rm ff g = Inr True" by simp
      show ?thesis
      proof (cases "0 < mc \<and> mc \<le> int (num_loaded c) + 1")
        case True
        then have m: "0 < mc" "mc \<le> int (num_loaded c) + 1" by simp_all
        from assms Some fp m
        have "r = Return" "evs = [Object key, Yield key g]"
          "c' = c\<lparr>num_total := num_total c + 1, num_loaded := num_loaded c + 1\<rparr>"
          by (auto simp: find_object_Return)
        then show ?thesis using Some fp m by (intro final)
      next
        case False
        from assms Some fp False
        have "r = Continue" "evs = [Object key, Yield key g] @ report pr c'"
          "c' = c\<lparr>num_total := num_total c + 1, num_loaded := num_loaded c + 1\<rparr>"
          by (auto simp: find_object_Yield)
        then show ?thesis using Some fp False by (intro loaded)
      qed
    qed
  qed
qed

lemma yielded_simps [simp]:
  "yielded [] = 0"
  "yielded (Fetched # evs) = yielded evs"
  "yielded (Object k # evs) = yielded evs"
  "yielded (Yield k g # evs) = Suc (yielded evs)"
  "yielded (Callback p # evs) = yielded evs"
  "yielded (evs @ evs') = yielded evs + yielded evs'"
  by (simp_all add: yielded_def)

lemma yielded_report [simp]: "yielded (report pr c) = 0"
  by (simp add: report_def)

lemma stops_at_object:
  assumes "0 < mc" "int (num_loaded c) < mc" "find_object fp rm pr ff mc key c = (evs, r, c')"
  shows "stops_at mc c evs r c'"
  using assms(3)
proof (cases rule: find_object_cases)
  case filtered
  then show ?thesis using assms(2) by (simp add: stops_at_def)
next
  case (loaded g)
  then show ?thesis using assms(1,2) by (simp add: stops_at_def)
next
  case (final g)
  then show ?thesis using assms(1,2) by (auto simp: stops_at_def)
next
  case (raised g e)
  then show ?thesis using assms(2) by (simp add: stops_at_def)
qed

lemma stops_at_seq:
  assumes "stops_at mc c evs Continue c1" "stops_at mc c1 evs' r c2"
  shows "stops_at mc c (evs @ evs') r c2"
  using assms unfolding stops_at_def
  by (auto intro: exI [where x = "evs @ pre" for pre])

lemma stops_at_contents:
  assumes "0 < mc"
  shows "int (num_loaded c) < mc \<Longrightarrow> find_contents fp rm pr ff mc keys c = (evs, r, c')
          \<Longrightarrow> stops_at mc c evs r c'"
proof (induction keys arbitrary: c evs r c')
  case Nil
  then show ?case by (simp add: stops_at_def)
next
  case (Cons key keys)
  obtain evs1 r1 c1 where step: "find_object fp rm pr ff mc key c = (evs1, r1, c1)"
    by (cases "find_object fp rm pr ff mc key c") auto
  have first: "stops_at mc c evs1 r1 c1"
    using stops_at_object [OF assms Cons.prems(1) step] .
  show ?case
  proof (cases "r1 = Continue")
    case False
    with step Cons.prems(2) have "evs = evs1" "r = r1" "c' = c1"
      by (cases r1; simp)+
    with first show ?thesis by simp
  next
    case True
    obtain evs2 r2 c2 where rest: "find_contents fp rm pr ff mc keys c1 = (evs2, r2, c2)"
      by (cases "find_contents fp rm pr ff mc keys c1") auto
    from True step rest Cons.prems(2) have eq: "evs = evs1 @ evs2" "r = r2" "c' = c2"
      by simp_all
    from first True have "int (num_loaded c1) < mc" by (simp add: stops_at_def)
    then have "stops_at mc c1 evs2 r2 c2" using Cons.IH rest by blast
    with first True show ?thesis unfolding eq by (auto intro: stops_at_seq)
  qed
qed

lemma stops_at_Fetched: "stops_at mc c evs r c' \<Longrightarrow> stops_at mc c (Fetched # evs) r c'"
  unfolding stops_at_def by (auto intro: exI [where x = "Fetched # pre" for pre])

lemma stops_at_pages:
  assumes "0 < mc"
  shows "int (num_loaded c) < mc \<Longrightarrow> find_pages fp rm pr ff mc pages c = (evs, r, c')
          \<Longrightarrow> stops_at mc c evs r c'"
proof (induction pages arbitrary: c evs r c')
  case Nil
  then show ?case by (simp add: stops_at_def)
next
  case (Cons pg pages)
  show ?case
  proof (cases pg)
    case (Inl e)
    with Cons.prems show ?thesis by (auto simp: stops_at_def)
  next
    case (Inr page)
    obtain evs1 r1 c1 where inner:
      "find_contents fp rm pr ff mc (contents page) c = (evs1, r1, c1)"
      by (cases "find_contents fp rm pr ff mc (contents page) c") auto
    have first: "stops_at mc c evs1 r1 c1"
      using stops_at_contents [OF assms Cons.prems(1) inner] .
    show ?thesis
    proof (cases "r1 = Continue")
      case False
      with Inr inner Cons.prems(2) have "evs = Fetched # evs1" "r = r1" "c' = c1"
        by (cases r1; simp)+
      with first show ?thesis by (simp add: stops_at_Fetched)
    next
      case True
      obtain evs2 r2 c2 where rest: "find_pages fp rm pr ff mc pages c1 = (evs2, r2, c2)"
        by (cases "find_pages fp rm pr ff mc pages c1") auto
      from True Inr inner rest Cons.prems(2)
      have eq: "evs = Fetched # evs1 @ evs2" "r = r2" "c' = c2"
        by simp_all
      from first True have "int (num_loaded c1) < mc" by (simp add: stops_at_def)
      then have "stops_at mc c1 evs2 r2 c2" using Cons.IH rest by blast
      with first True have "stops_at mc c (evs1 @ evs2) r2 c2" by (auto intro: stops_at_seq)
      then show ?thesis unfolding eq by (simp add: stops_at_Fetched)
    qed
  qed
qed

text \<open>Every entry that is yielded matched the pattern and passed the filter.\<close>

lemma yields_pass_object:
  assumes "find_object fp rm pr ff mc key c = (evs, r, c')" "Yield k g \<in> set evs"
  shows "fp k = Some g \<and> filter_passes rm ff g = Inr True"
  using assms(1)
proof (cases rule: find_object_cases)
  case filtered
  with assms(2) show ?thesis by (auto simp: report_def split: if_splits)
next
  case (loaded g')
  with assms(2) show ?thesis by (auto simp: report_def split: if_splits)
next
  case (final g')
  with assms(2) show ?thesis by auto
next
  case (raised g' e)
  with assms(2) show ?thesis by auto
qed

lemma yields_pass_contents:
  "find_contents fp rm pr ff mc keys c = (evs, r, c') \<Longrightarrow> Yield k g \<in> set evs
     \<Longrightarrow> fp k = Some g \<and> filter_passes rm ff g = Inr True"
proof (induction keys arbitrary: c evs r c')
  case Nil
  then show ?case by simp
next
  case (Cons key keys)
  obtain evs1 r1 c1 where step: "find_object fp rm pr ff mc key c = (evs1, r1, c1)"
    by (cases "find_object fp rm pr ff mc key c") auto
  show ?case
  proof (cases "r1 = Continue")
    case False
    with step Cons.prems(1) have "evs = evs1" by (cases r1; simp)
    with Cons.prems(2) step show ?thesis by (auto dest: yields_pass_object)
  next
    case True
    obtain evs2 r2 c2 where rest: "find_contents fp rm pr ff mc keys c1 = (evs2, r2, c2)"
      by (cases "find_contents fp rm pr ff mc keys c1") auto
    from True step rest Cons.prems(1) have "evs = evs1 @ evs2" by simp
    with Cons.prems(2) have "Yield k g \<in> set evs1 \<or> Yield k g \<in> set evs2" by simp
    then show ?thesis
      using step rest Cons.IH by (auto dest: yields_pass_object)
  qed
qed

lemma yields_pass_pages:
  "find_pages fp rm pr ff mc pages c = (evs, r, c') \<Longrightarrow> Yield k g \<in> set evs
     \<Longrightarrow> fp k = Some g \<and> filter_passes rm ff g = Inr True"
proof (induction pages arbitrary: c evs r c')
  case Nil
  then show ?case by simp
next
  case (Cons pg pages)
  show ?case
  proof (cases pg)
    case (Inl e)
    with Cons.prems show ?thesis by simp
  next
    case (Inr page)
    obtain evs1 r1 c1 where inner:
      "find_contents fp rm pr ff mc (contents page) c = (evs1, r1, c1)"
      by (cases "find_contents fp rm pr ff mc (contents page) c") auto
    show ?thesis
    proof (cases "r1 = Continue")
      case False
      with Inr inner Cons.prems(1) have "evs = Fetched # evs1" by (cases r1; simp)
      with Cons.prems(2) inner show ?thesis by (auto dest: yields_pass_contents)
    next
      case True
      obtain evs2 r2 c2 where rest: "find_pages fp rm pr ff mc pages c1 = (evs2, r2, c2)"
        by (cases "find_pages fp rm pr ff mc pages c1") auto
      from True Inr inner rest Cons.prems(1) have "evs = Fetched # evs1 @ evs2" by simp
      with Cons.prems(2) have "Yield k g \<in> set evs1 \<or> Yield k g \<in> set evs2" by simp
      then show ?thesis
        using inner rest Cons.IH by (auto dest: yields_pass_contents)
    qed
  qed
qed

lemmas find_eval = s3_find_def search_prefix_def contents_def find_object_def filter_passes_def
  report_def Let_def numeral_2_eq_2 numeral_3_eq_3

text \<open>
  Claim C5: with a positive \<open>max_count = N\<close>, \<open>find\<close> yields at most \<open>N\<close> entries, and
  it yields exactly \<open>N\<close> just when it ends by \<open>return\<close>; the run then stops with the
  \<open>N\<close>-th yield as its last step, so no page is fetched and no object is processed
  after it.
\<close>

theorem find_max_count:
  assumes "0 < max_count"
    and "s3_find paginate self file_pattern re_match base_dir progress file_filter max_count
           = (evs, r, c)"
  shows "int (yielded evs) \<le> max_count \<and>
         (int (yielded evs) = max_count \<longleftrightarrow> r = Return) \<and>
         (r = Return \<longrightarrow> (\<exists>pre k g. evs = pre @ [Yield k g]))"
proof -
  have "stops_at max_count \<lparr>num_loaded = 0, num_filtered = 0, num_total = 0\<rparr> evs r c"
    using assms stops_at_pages [OF assms(1), of "\<lparr>num_loaded = 0, num_filtered = 0, num_total = 0\<rparr>"]
    by (simp add: s3_find_def)
  then show ?thesis by (auto simp: stops_at_def)
qed

theorem find_max_count_witness:
  "(0::int) < 2 \<and>
   s3_find (\<lambda>b p. [Inr (Some [''a'', ''b'', ''c'']), Inr (Some [''d''])])
      \<lparr>bucket_name = Some ''bucket'', base_prefix = ''docs''\<rparr>
      (\<lambda>k. Some []) (\<lambda>(v::string) s. True) None False None 2
     = ([Fetched, Object ''a'', Yield ''a'' [], Object ''b'', Yield ''b'' []],
        Return, \<lparr>num_loaded = 2, num_filtered = 0, num_total = 2\<rparr>)
   \<and> int (yielded [Fetched, Object ''a'', Yield ''a'' [], Object ''b'', Yield ''b'' []]) = 2"
proof -
  have pos: "(0::int) < 2" by simp
  have run: "s3_find (\<lambda>b p. [Inr (Some [''a'', ''b'', ''c'']), Inr (Some [''d''])])
      \<lparr>bucket_name = Some ''bucket'', base_prefix = ''docs''\<rparr>
      (\<lambda>k. Some []) (\<lambda>(v::string) s. True) None False None 2
     = ([Fetched, Object ''a'', Yield ''a'' [], Object ''b'', Yield ''b'' []],
        Return, \<lparr>num_loaded = 2, num_filtered = 0, num_total = 2\<rparr>)"
    by (simp add: find_eval)
  from find_max_count [OF pos run] pos run show ?thesis by simp
qed

text \<open>Counting the steps of a run.\<close>

lemma objects_seen_simps [simp]:
  "objects_seen [] = 0"
  "objects_seen (Fetched # evs) = objects_seen evs"
  "objects_seen (Object k # evs) = Suc (objects_seen evs)"
  "objects_seen (Yield k g # evs) = objects_seen evs"
  "objects_seen (Callback p # evs) = objects_seen evs"
  "objects_seen (evs @ evs') = objects_seen evs + objects_seen evs'"
  by (simp_all add: objects_seen_def)

lemma callbacks_simps [simp]:
  "callbacks [] = 0"
  "callbacks (Fetched # evs) = callbacks evs"
  "callbacks (Object k # evs) = callbacks evs"
  "callbacks (Yield k g # evs) = callbacks evs"
  "callbacks (Callback p # evs) = Suc (callbacks evs)"
  "callbacks (evs @ evs') = callbacks evs + callbacks evs'"
  by (simp_all add: callbacks_def)














text \<open>The filter check, item by item.\<close>

lemma all_filter_rejects:
  assumes "\<forall>(name, v) \<in> set items. \<exists>s. map_of grp name = Some (Some s)"
    and "\<exists>(name, v) \<in> set items. \<forall>s. map_of grp name = Some (Some s) \<longrightarrow> \<not> re_match v s"
  shows "all_filter re_match grp items = Inr False"
  using assms
proof (induction items)
  case Nil
  then show ?case by simp
next
  case (Cons item items)
  obtain name v where item: "item = (name, v)" by (cases item)
  from Cons.prems(1) item obtain s where s: "map_of grp name = Some (Some s)" by auto
  show ?case
  proof (cases "re_match v s")
    case False
    with s item show ?thesis by simp
  next
    case True
    with Cons.prems(2) item s
    have "\<exists>(name, v) \<in> set items. \<forall>s. map_of grp name = Some (Some s) \<longrightarrow> \<not> re_match v s"
      by auto
    moreover from Cons.prems(1)
    have "\<forall>(name, v) \<in> set items. \<exists>s. map_of grp name = Some (Some s)" by simp
    ultimately have "all_filter re_match grp items = Inr False" by (rule Cons.IH [rotated])
    with True s item show ?thesis by simp
  qed
qed

lemma all_filter_raises:
  assumes "\<forall>(name, v) \<in> set before. \<exists>s. map_of grp name = Some (Some s) \<and> re_match v s"
  shows "all_filter re_match grp (before @ (name, v) # rest) =
           (case map_of grp name of
              None \<Rightarrow> Inl (KeyError name)
            | Some None \<Rightarrow> Inl TypeError
            | Some (Some s) \<Rightarrow> if re_match v s then all_filter re_match grp rest else Inr False)"
  using assms by (induction before) auto

lemma all_filter_accepts:
  "all_filter re_match grp items = Inr True \<longleftrightarrow>
     (\<forall>(name, v) \<in> set items. \<exists>s. map_of grp name = Some (Some s) \<and> re_match v s)"
  by (induction items) (auto split: option.splits if_splits)

text \<open>
  Claim C3, as stated: a filter entry that names a capture group missing from the match
  makes the object count as filtered, without an error. \<open>group[key]\<close> raises instead:
  a filter on \<open>year\<close> against a pattern with no \<open>year\<close> group ends \<open>find\<close> with
  \<open>KeyError\<close> at the first matching object.
\<close>

theorem find_filter_missing_group:
  "s3_find (\<lambda>b p. [Inr (Some [''docs/a/01_alice.txt''])])
      \<lparr>bucket_name = Some ''bucket'', base_prefix = ''docs''\<rparr>
      (\<lambda>k. Some [(''month'', Some ''01''), (''author'', Some ''alice'')])
      (\<lambda>v s. startswith s v) None True (Some [(''year'', ''2023'')]) (- 1)
     = ([Fetched, Object ''docs/a/01_alice.txt''], Raise (KeyError ''year''),
        \<lparr>num_loaded = 0, num_filtered = 0, num_total = 1\<rparr>)"
  by (simp add: find_eval)

text \<open>
  Claim C3, amended: the filter entries are checked in order and the check stops at the
  first entry that does not pass. When that entry names a group that captured a string
  and the string fails the sub-pattern, the object is counted as filtered and skipped:
  nothing is yielded, nothing is raised, the scan goes on, whatever the later entries
  name. When that entry names a group missing from the group dictionary, \<open>find\<close>
  raises \<open>KeyError\<close>; when it names a group that captured nothing, \<open>TypeError\<close>.
\<close>

theorem find_filter_mismatch:
  assumes "file_pattern key = Some grp"
    and "\<forall>(name, v) \<in> set before. \<exists>s. map_of grp name = Some (Some s) \<and> re_match v s"
  shows "(map_of grp failing = Some (Some s) \<and> \<not> re_match v s
          \<longrightarrow> find_object file_pattern re_match progress
                  (Some (before @ (failing, v) # rest)) max_count key c =
                (Object key #
                   report progress
                     (c\<lparr>num_total := num_total c + 1, num_filtered := num_filtered c + 1\<rparr>),
                 Continue,
                 c\<lparr>num_total := num_total c + 1, num_filtered := num_filtered c + 1\<rparr>))
       \<and> (map_of grp missing = None
          \<longrightarrow> find_object file_pattern re_match progress
                  (Some (before @ (missing, v) # rest)) max_count key c =
                ([Object key], Raise (KeyError missing), c\<lparr>num_total := num_total c + 1\<rparr>))
       \<and> (map_of grp unset = Some None
          \<longrightarrow> find_object file_pattern re_match progress
                  (Some (before @ (unset, v) # rest)) max_count key c =
                ([Object key], Raise TypeError, c\<lparr>num_total := num_total c + 1\<rparr>))"
proof (intro conjI impI)
  assume "map_of grp failing = Some (Some s) \<and> \<not> re_match v s"
  then have "filter_passes re_match (Some (before @ (failing, v) # rest)) grp = Inr False"
    using assms(2) by (simp add: filter_passes_def all_filter_raises)
  with assms(1) show "find_object file_pattern re_match progress
                  (Some (before @ (failing, v) # rest)) max_count key c =
                (Object key #
                   report progress
                     (c\<lparr>num_total := num_total c + 1, num_filtered := num_filtered c + 1\<rparr>),
                 Continue,
                 c\<lparr>num_total := num_total c + 1, num_filtered := num_filtered c + 1\<rparr>)"
    by (simp add: find_object_False)
next
  assume "map_of grp missing = None"
  then have "filter_passes re_match (Some (before @ (missing, v) # rest)) grp
               = Inl (KeyError missing)"
    using assms(2) by (simp add: filter_passes_def all_filter_raises)
  with assms(1) show "find_object file_pattern re_match progress
                  (Some (before @ (missing, v) # rest)) max_count key c =
                ([Object key], Raise (KeyError missing), c\<lparr>num_total := num_total c + 1\<rparr>)"
    by (simp add: find_object_Raise)
next
  assume "map_of grp unset = Some None"
  then have "filter_passes re_match (Some (before @ (unset, v) # rest)) grp = Inl TypeError"
    using assms(2) by (simp add: filter_passes_def all_filter_raises)
  with assms(1) show "find_object file_pattern re_match progress
                  (Some (before @ (unset, v) # rest)) max_count key c =
                ([Object key], Raise TypeError, c\<lparr>num_total := num_total c + 1\<rparr>)"
    by (simp add: find_object_Raise)
qed

theorem find_filter_mismatch_witness:
  "find_object
      (\<lambda>k. Some [(''source'', Some ''a''), (''year'', Some ''2022''), (''author'', None)])
      (\<lambda>v s. startswith s v) False
      (Some [(''source'', ''''), (''year'', ''2023''), (''day'', ''01'')]) (- 1)
      ''docs/a/2022_x.txt'' \<lparr>num_loaded = 0, num_filtered = 0, num_total = 0\<rparr>
     = ([Object ''docs/a/2022_x.txt''], Continue,
        \<lparr>num_loaded = 0, num_filtered = 1, num_total = 1\<rparr>)
   \<and> find_object
      (\<lambda>k. Some [(''source'', Some ''a''), (''year'', Some ''2022''), (''author'', None)])
      (\<lambda>v s. startswith s v) False
      (Some [(''source'', ''''), (''day'', ''2023''), (''day'', ''01'')]) (- 1)
      ''docs/a/2022_x.txt'' \<lparr>num_loaded = 0, num_filtered = 0, num_total = 0\<rparr>
     = ([Object ''docs/a/2022_x.txt''], Raise (KeyError ''day''),
        \<lparr>num_loaded = 0, num_filtered = 0, num_total = 1\<rparr>)
   \<and> find_object
      (\<lambda>k. Some [(''source'', Some ''a''), (''year'', Some ''2022''), (''author'', None)])
      (\<lambda>v s. startswith s v) False
      (Some [(''source'', ''''), (''author'', ''2023''), (''day'', ''01'')]) (- 1)
      ''docs/a/2022_x.txt'' \<lparr>num_loaded = 0, num_filtered = 0, num_total = 0\<rparr>
     = ([Object ''docs/a/2022_x.txt''], Raise TypeError,
        \<lparr>num_loaded = 0, num_filtered = 0, num_total = 1\<rparr>)"
  using find_filter_mismatch
    [where file_pattern =
        "\<lambda>k. Some [(''source'', Some ''a''), (''year'', Some ''2022''), (''author'', None)]"
      and key = "''docs/a/2022_x.txt''"
      and grp = "[(''source'', Some ''a''), (''year'', Some ''2022''), (''author'', None)]"
      and re_match = "\<lambda>v s. startswith s v"
      and before = "[(''source'', '''')]" and failing = "''year''" and s = "''2022''"
      and v = "''2023''" and missing = "''day''" and unset = "''author''"
      and rest = "[(''day'', ''01'')]" and progress = False and max_count = "- 1"
      and c = "\<lparr>num_loaded = 0, num_filtered = 0, num_total = 0\<rparr>"]
  by (simp add: report_def)

section \<open>Loading text files from the bucket\<close>

lemma collect_pages_error:
  "\<forall>x \<in> set before. \<not> isl x \<Longrightarrow> collect_pages fp (before @ Inl e # rest) = Inl e"
proof (induction before)
  case Nil
  then show ?case by simp
next
  case (Cons x before)
  then obtain page where "x = Inr page" by (cases x) auto
  with Cons show ?case by simp
qed

lemma collect_contents_empty:
  "\<forall>k \<in> set keys. \<not> (endswith k ''.txt'' \<and> fp k \<noteq> None) \<Longrightarrow> collect_contents fp keys = []"
  by (induction keys) (auto split: option.splits)

lemma collect_pages_empty:
  "\<forall>x \<in> set pages. \<exists>page. x = Inr page \<and>
      (\<forall>k \<in> set (contents page). \<not> (endswith k ''.txt'' \<and> fp k \<noteq> None))
   \<Longrightarrow> collect_pages fp pages = Inr []"
proof (induction pages)
  case Nil
  then show ?case by simp
next
  case (Cons x pages)
  then obtain page where page: "x = Inr page"
    "\<forall>k \<in> set (contents page). \<not> (endswith k ''.txt'' \<and> fp k \<noteq> None)"
    by auto
  from Cons have "collect_pages fp pages = Inr []" by simp
  with page show ?case by (simp add: collect_contents_empty)
qed

lemma falsy_str_or: "\<not> falsy x \<Longrightarrow> x = Some (str_or x [])"
  by (cases x) (auto simp: falsy_def str_or_def)

lemma load_files_loaded:
  "fst (load_files cd fetch gen config progress files) =
     concat (map (\<lambda>(file, grp).
                    case fetch (cfg_bucket_name config) file of
                      Inl e \<Rightarrow> []
                    | Inr data \<Rightarrow>
                        (case decode cd ''utf-8'' data of
                           Inl x \<Rightarrow> []
                         | Inr txt \<Rightarrow> [new_item gen file grp txt])) files)"
proof (induction files)
  case Nil
  then show ?case by simp
next
  case (Cons entry files)
  obtain k g where entry: "entry = (k, g)" by (cases entry)
  show ?case
    using Cons.IH unfolding entry
    by (auto simp: load_file_def Let_def split: sum.splits prod.splits)
qed

lemma load_files_warns:
  "(file, grp) \<in> set files \<Longrightarrow> fetch (cfg_bucket_name config) file = Inl e \<Longrightarrow>
   ErrorReading file e \<in> set (snd (load_files cd fetch gen config progress files)) \<and>
   WarningSkipping file \<in> set (snd (load_files cd fetch gen config progress files))"
proof (induction files)
  case Nil
  then show ?case by simp
next
  case (Cons entry files)
  obtain k g where entry: "entry = (k, g)" by (cases entry)
  show ?case
  proof (cases "(file, grp) = entry")
    case True
    with Cons.prems(2) entry show ?thesis
      by (auto simp: load_file_def Let_def split: sum.splits prod.splits)
  next
    case False
    with Cons.prems have "(file, grp) \<in> set files" by simp
    from Cons.IH [OF this Cons.prems(2)] show ?thesis
      unfolding entry by (auto simp: Let_def split: sum.splits prod.splits)
  qed
qed

lemma load_files_warns_undecodable:
  "(file, grp) \<in> set files \<Longrightarrow> fetch (cfg_bucket_name config) file = Inr data \<Longrightarrow>
   decode cd ''utf-8'' data = Inl x \<Longrightarrow>
   WarningSkipping file \<in> set (snd (load_files cd fetch gen config progress files))"
proof (induction files)
  case Nil
  then show ?case by simp
next
  case (Cons entry files)
  obtain k g where entry: "entry = (k, g)" by (cases entry)
  show ?case
  proof (cases "(file, grp) = entry")
    case True
    with Cons.prems(2,3) entry show ?thesis
      by (auto simp: load_file_def Let_def split: sum.splits prod.splits)
  next
    case False
    with Cons.prems have "(file, grp) \<in> set files" by simp
    from Cons.IH [OF this Cons.prems(2,3)] show ?thesis
      unfolding entry by (auto simp: Let_def split: sum.splits prod.splits)
  qed
qed

text \<open>
  Claim C9, as stated: the loaded result contains every file that was fetched. A file
  that is fetched but whose body is not UTF-8 fails in \<open>load_file\<close> as well, and the
  handler for \<open>Exception\<close> skips it: the one listed file is retrieved, and the result
  is empty.
\<close>

theorem load_drops_undecodable_file:
  "load strict_codec (\<lambda>b k. Inr [255]) (\<lambda>item. ''h'')
      (\<lambda>b p. [Inr (Some [''docs/a.txt''])]) (\<lambda>k. Some [])
      \<lparr>cfg_bucket_name = Some ''bucket'', cfg_base_prefix = Some ''docs''\<rparr> False
     = (Inr [], [InfoFound 1 (Some ''bucket''), WarningSkipping ''docs/a.txt'', InfoLoading 1 0])"
  by (simp add: load_def falsy_def contents_def endswith_def load_file_def strict_codec_def
      Let_def)

text \<open>
  Claim C9, amended: when the listing succeeds and finds files, a failure in loading one
  file, whether the fetch fails with a client error or the body does not decode as UTF-8,
  is skipped with a warning (a failed fetch is logged as an error first) and the loop
  goes on; \<open>load\<close> returns the rows of exactly the files that were fetched and
  decoded, in listing order. A client error of the paginator, on whichever page, ends
  \<open>load\<close> with that error after logging it.
\<close>

theorem load_skips_failed_files:
  assumes "cfg_bucket_name config = Some bucket" "bucket \<noteq> []"
    and "cfg_base_prefix config = Some prefix" "prefix \<noteq> []"
  shows "(collect_pages file_pattern (paginate (Some bucket) (Some prefix)) = Inr files \<and>
          files \<noteq> [] \<longrightarrow>
            (\<exists>out. load cd fetch gen_md5_hash paginate file_pattern config progress =
                     (Inr (concat (map (\<lambda>(file, grp).
                              case fetch (Some bucket) file of
                                Inl e \<Rightarrow> []
                              | Inr data \<Rightarrow>
                                  (case decode cd ''utf-8'' data of
                                     Inl x \<Rightarrow> []
                                   | Inr txt \<Rightarrow> [new_item gen_md5_hash file grp txt]))
                            files)), out) \<and>
                   (\<forall>(file, grp) \<in> set files. \<forall>e. fetch (Some bucket) file = Inl e \<longrightarrow>
                      ErrorReading file e \<in> set out \<and> WarningSkipping file \<in> set out) \<and>
                   (\<forall>(file, grp) \<in> set files. \<forall>data x.
                      fetch (Some bucket) file = Inr data \<and> decode cd ''utf-8'' data = Inl x
                      \<longrightarrow> WarningSkipping file \<in> set out)))
       \<and> (paginate (Some bucket) (Some prefix) = before @ Inl e # rest \<and>
          (\<forall>x \<in> set before. \<not> isl x) \<longrightarrow>
            load cd fetch gen_md5_hash paginate file_pattern config progress =
              (Inl (ClientError e), [ErrorAccessing e]))"
proof (intro conjI impI)
  assume a: "collect_pages file_pattern (paginate (Some bucket) (Some prefix)) = Inr files \<and>
             files \<noteq> []"
  obtain loaded out1 where lf:
    "load_files cd fetch gen_md5_hash config progress files = (loaded, out1)"
    by (cases "load_files cd fetch gen_md5_hash config progress files") auto
  have loaded: "loaded = concat (map (\<lambda>(file, grp).
                              case fetch (Some bucket) file of
                                Inl e \<Rightarrow> []
                              | Inr data \<Rightarrow>
                                  (case decode cd ''utf-8'' data of
                                     Inl x \<Rightarrow> []
                                   | Inr txt \<Rightarrow> [new_item gen_md5_hash file grp txt]))
                            files)"
    using load_files_loaded [of cd fetch gen_md5_hash config progress files] lf assms(1)
    by simp
  have eq: "load cd fetch gen_md5_hash paginate file_pattern config progress =
          (Inr loaded, [InfoFound (length files) (Some bucket)] @ out1
                         @ [InfoLoading (length files) (length loaded)])"
    using assms a lf by (simp add: load_def falsy_def)
  have warn: "\<forall>(file, grp) \<in> set files. \<forall>e. fetch (Some bucket) file = Inl e \<longrightarrow>
                ErrorReading file e \<in> set out1 \<and> WarningSkipping file \<in> set out1"
    using load_files_warns [of _ _ files fetch config _ cd gen_md5_hash progress] lf assms(1)
    by auto
  have warn2: "\<forall>(file, grp) \<in> set files. \<forall>data x.
                 fetch (Some bucket) file = Inr data \<and> decode cd ''utf-8'' data = Inl x
                 \<longrightarrow> WarningSkipping file \<in> set out1"
    using load_files_warns_undecodable [of _ _ files fetch config _ cd _ gen_md5_hash progress]
      lf assms(1)
    by auto
  show "\<exists>out. load cd fetch gen_md5_hash paginate file_pattern config progress =
                     (Inr (concat (map (\<lambda>(file, grp).
                              case fetch (Some bucket) file of
                                Inl e \<Rightarrow> []
                              | Inr data \<Rightarrow>
                                  (case decode cd ''utf-8'' data of
                                     Inl x \<Rightarrow> []
                                   | Inr txt \<Rightarrow> [new_item gen_md5_hash file grp txt]))
                            files)), out) \<and>
                   (\<forall>(file, grp) \<in> set files. \<forall>e. fetch (Some bucket) file = Inl e \<longrightarrow>
                      ErrorReading file e \<in> set out \<and> WarningSkipping file \<in> set out) \<and>
                   (\<forall>(file, grp) \<in> set files. \<forall>data x.
                      fetch (Some bucket) file = Inr data \<and> decode cd ''utf-8'' data = Inl x
                      \<longrightarrow> WarningSkipping file \<in> set out)"
    unfolding eq loaded [symmetric] using warn warn2 by auto
next
  assume "paginate (Some bucket) (Some prefix) = before @ Inl e # rest \<and>
          (\<forall>x \<in> set before. \<not> isl x)"
  then have "collect_pages file_pattern (paginate (Some bucket) (Some prefix)) = Inl e"
    by (simp add: collect_pages_error)
  with assms show "load cd fetch gen_md5_hash paginate file_pattern config progress =
              (Inl (ClientError e), [ErrorAccessing e])"
    by (simp add: load_def falsy_def)
qed

theorem load_skips_failed_files_witness:
  "load strict_codec
      (\<lambda>b k. if k = ''docs/a.txt'' then Inl (ClientErr ''AccessDenied'' ''Access Denied'')
              else if k = ''docs/c.txt'' then Inr [255] else Inr [])
      (\<lambda>item. ''h'')
      (\<lambda>b p. [Inr (Some [''docs/a.txt'', ''docs/b.txt'', ''docs/c.txt''])])
      (\<lambda>k. Some [])
      \<lparr>cfg_bucket_name = Some ''bucket'', cfg_base_prefix = Some ''docs''\<rparr> False
     = (Inr [[(''text'', Some []), (''id'', Some ''h''), (''title'', Some ''b.txt'')]],
        [InfoFound 3 (Some ''bucket''),
         ErrorReading ''docs/a.txt'' (ClientErr ''AccessDenied'' ''Access Denied''),
         WarningSkipping ''docs/a.txt'',
         WarningSkipping ''docs/c.txt'',
         InfoLoading 3 1])
   \<and> load strict_codec (\<lambda>b k. Inr []) (\<lambda>item. ''h'')
      (\<lambda>b p. [Inr (Some [''docs/a.txt'']),
               Inl (ClientErr ''SlowDown'' ''Please reduce your request rate.'')])
      (\<lambda>k. Some [])
      \<lparr>cfg_bucket_name = Some ''bucket'', cfg_base_prefix = Some ''docs''\<rparr> False
     = (Inl (ClientError (ClientErr ''SlowDown'' ''Please reduce your request rate.'')),
        [ErrorAccessing (ClientErr ''SlowDown'' ''Please reduce your request rate.'')])"
proof -
  let ?fetch = "\<lambda>(b::string option) k. if k = ''docs/a.txt''
                  then Inl (ClientErr ''AccessDenied'' ''Access Denied'')
                  else if k = ''docs/c.txt'' then Inr [255] else Inr []"
  let ?config = "\<lparr>cfg_bucket_name = Some ''bucket'', cfg_base_prefix = Some ''docs''\<rparr>"
  let ?run = "load strict_codec ?fetch (\<lambda>item. ''h'')
      (\<lambda>b p. [Inr (Some [''docs/a.txt'', ''docs/b.txt'', ''docs/c.txt''])]) (\<lambda>k. Some [])
      ?config False"
  have rows: "fst ?run =
      Inr [[(''text'', Some []), (''id'', Some ''h''), (''title'', Some ''b.txt'')]]"
    using load_skips_failed_files
      [where config = ?config and bucket = "''bucket''" and prefix = "''docs''"
        and paginate = "\<lambda>b p. [Inr (Some [''docs/a.txt'', ''docs/b.txt'', ''docs/c.txt''])]"
        and file_pattern = "\<lambda>k. Some []"
        and files = "[(''docs/a.txt'', []), (''docs/b.txt'', []), (''docs/c.txt'', [])]"
        and cd = strict_codec and fetch = ?fetch and gen_md5_hash = "\<lambda>item. ''h''"
        and progress = False, THEN conjunct1]
    by (auto simp: contents_def endswith_def new_item_def path_name_def strict_codec_def)
  have written: "snd ?run =
      [InfoFound 3 (Some ''bucket''),
       ErrorReading ''docs/a.txt'' (ClientErr ''AccessDenied'' ''Access Denied''),
       WarningSkipping ''docs/a.txt'',
       WarningSkipping ''docs/c.txt'',
       InfoLoading 3 1]"
    by (simp add: load_def falsy_def contents_def endswith_def load_file_def new_item_def
        path_name_def strict_codec_def Let_def)
  have skipped: "?run =
     (Inr [[(''text'', Some []), (''id'', Some ''h''), (''title'', Some ''b.txt'')]],
      [InfoFound 3 (Some ''bucket''),
       ErrorReading ''docs/a.txt'' (ClientErr ''AccessDenied'' ''Access Denied''),
       WarningSkipping ''docs/a.txt'',
       WarningSkipping ''docs/c.txt'',
       InfoLoading 3 1])"
    using rows written by (simp add: prod_eq_iff)
  have aborted: "load strict_codec (\<lambda>b k. Inr []) (\<lambda>item. ''h'')
      (\<lambda>b p. [Inr (Some [''docs/a.txt'']),
               Inl (ClientErr ''SlowDown'' ''Please reduce your request rate.'')])
      (\<lambda>k. Some []) ?config False
     = (Inl (ClientError (ClientErr ''SlowDown'' ''Please reduce your request rate.'')),
        [ErrorAccessing (ClientErr ''SlowDown'' ''Please reduce your request rate.'')])"
    using load_skips_failed_files
      [where config = ?config and bucket = "''bucket''" and prefix = "''docs''"
        and paginate = "\<lambda>b p. [Inr (Some [''docs/a.txt'']),
                                 Inl (ClientErr ''SlowDown'' ''Please reduce your request rate.'')]"
        and before = "[Inr (Some [''docs/a.txt''])]"
        and e = "ClientErr ''SlowDown'' ''Please reduce your request rate.''" and rest = "[]",
        THEN conjunct2]
    by simp
  from skipped aborted show ?thesis by simp
qed

text \<open>
  Claim C10: when no page fails and no listed key both ends in \<open>.txt\<close> and matches the
  file pattern, \<open>load\<close> raises \<open>ValueError\<close> with a message that names the bucket and
  the prefix; it does not return an empty result.
\<close>

theorem load_no_text_files:
  assumes "cfg_bucket_name config = Some bucket" "bucket \<noteq> []"
    and "cfg_base_prefix config = Some prefix" "prefix \<noteq> []"
    and "\<forall>x \<in> set (paginate (Some bucket) (Some prefix)). \<exists>page. x = Inr page \<and>
           (\<forall>k \<in> set (contents page). \<not> (endswith k ''.txt'' \<and> file_pattern k \<noteq> None))"
  shows "load cd fetch gen_md5_hash paginate file_pattern config progress =
           (Inl (ValueError (''No text files found in S3 bucket '' @ bucket
                               @ '' with prefix '' @ prefix)), [])"
  using assms collect_pages_empty [of "paginate (Some bucket) (Some prefix)" file_pattern]
  by (simp add: load_def falsy_def str_or_def)

theorem load_no_text_files_witness:
  "load byte_codec (\<lambda>b k. Inr []) (\<lambda>item. ''h'')
      (\<lambda>b p. [Inr (Some [''docs/readme.md'', ''docs/a.txt'']), Inr None])
      (\<lambda>k. if k = ''docs/a.txt'' then None else Some [])
      \<lparr>cfg_bucket_name = Some ''bucket'', cfg_base_prefix = Some ''docs''\<rparr> False
     = (Inl (ValueError ''No text files found in S3 bucket bucket with prefix docs''), [])"
  using load_no_text_files
    [where config = "\<lparr>cfg_bucket_name = Some ''bucket'', cfg_base_prefix = Some ''docs''\<rparr>"
      and bucket = "''bucket''" and prefix = "''docs''"
      and paginate = "\<lambda>b p. [Inr (Some [''docs/readme.md'', ''docs/a.txt'']), Inr None]"
      and file_pattern = "\<lambda>k. if k = ''docs/a.txt'' then None else Some []"
      and cd = byte_codec and fetch = "\<lambda>b k. Inr []" and gen_md5_hash = "\<lambda>item. ''h''"
      and progress = False]
  by (simp add: contents_def endswith_def)

end
